theory Spec2Isabelle
  imports Main "HOL-Library.Word" "HOL-Library.Sublist"
begin

section \<open>The external scanner of tree-sitter-ipynb\<close>

text \<open>
  A shallow embedding of \<^verbatim>\<open>src/tree-sitter-ipynb/src/scanner.c\<close>. The scanner is
  stateless (its create, destroy, serialize and deserialize hooks do nothing), so the only
  state is the host's lexer, passed explicitly and returned updated.
\<close>

subsection \<open>Token kinds and the host's lexer\<close>

text \<open>\<^verbatim>\<open>enum TokenType { CONTENT_LINE, CELL_END };\<close>\<close>

datatype TokenType = CONTENT_LINE | CELL_END

text \<open>
  \<^verbatim>\<open>lexer->lookahead\<close> is an \<^verbatim>\<open>int32_t\<close>: the code point of the next character, and
  \<open>0\<close> at the end of the input.
\<close>

type_synonym int32 = "32 word"

text \<open>
  Modelled from the spec: the \<^verbatim>\<open>TSLexer\<close> of \<^verbatim>\<open>tree_sitter/parser.h\<close>, which is not
  among the sources. The spec calls it the input cursor: a forward-only position in the
  host's stream with the operations "peek current character" (a sentinel value denotes
  end-of-input) and "advance by one character". The record holds what the cursor has
  passed during this call (\<open>consumed\<close>), what lies ahead (\<open>remaining\<close>), the place of the
  last \<^verbatim>\<open>mark_end\<close> call, as a count of consumed characters (\<open>token_end\<close>, \<open>None\<close> when it
  was never called), and the out-parameter \<^verbatim>\<open>result_symbol\<close>.
\<close>

record TSLexer =
  consumed :: "int32 list"
  remaining :: "int32 list"
  token_end :: "nat option"
  result_symbol :: TokenType

text \<open>Modelled from the spec: peeking yields the next character, or the sentinel \<open>0\<close>.\<close>

definition lookahead :: "TSLexer \<Rightarrow> int32" where
  "lookahead lexer = (case remaining lexer of [] \<Rightarrow> 0 | c # _ \<Rightarrow> c)"

text \<open>
  \<^verbatim>\<open>static void advance(TSLexer *lexer) { lexer->advance(lexer, false); }\<close>
  Modelled from the spec: the host's \<^verbatim>\<open>advance\<close> moves the cursor over one character;
  at the end of the input there is nothing to move over.
\<close>

definition advance :: "TSLexer \<Rightarrow> TSLexer" where
  "advance lexer =
     (case remaining lexer of
        [] \<Rightarrow> lexer
      | c # cs \<Rightarrow> lexer\<lparr>consumed := consumed lexer @ [c], remaining := cs\<rparr>)"

text \<open>Modelled from the spec: \<^verbatim>\<open>lexer->mark_end(lexer)\<close> marks the current position.\<close>

definition mark_end :: "TSLexer \<Rightarrow> TSLexer" where
  "mark_end lexer = lexer\<lparr>token_end := Some (length (consumed lexer))\<rparr>"

subsection \<open>The marker\<close>

text \<open>\<^verbatim>\<open>const char *marker = "# <</ipynb_nvim>>";\<close>\<close>

definition marker :: string where
  "marker = ''# <</ipynb_nvim>>''"

text \<open>
  A C character as the scanner compares it with \<^verbatim>\<open>lexer->lookahead\<close>: the
  \<^verbatim>\<open>(unsigned char)\<close> value, promoted to an integer.
\<close>

definition codepoints :: "string \<Rightarrow> int32 list" where
  "codepoints s = map of_char s"

text \<open>
  \<^verbatim>\<open>for (int i = 0; marker[i] != '\0'; i++) {
    if (lexer->lookahead != (unsigned char)marker[i]) return false;
    advance(lexer);
  }
  return true;\<close>
  The loop runs over the characters of the marker that are still to be compared.
\<close>

fun check_end_marker_from :: "string \<Rightarrow> TSLexer \<Rightarrow> bool \<times> TSLexer" where
  "check_end_marker_from [] lexer = (True, lexer)"
| "check_end_marker_from (m # ms) lexer =
     (if lookahead lexer \<noteq> of_char m then (False, lexer)
      else check_end_marker_from ms (advance lexer))"

definition check_end_marker :: "TSLexer \<Rightarrow> bool \<times> TSLexer" where
  "check_end_marker lexer = check_end_marker_from marker lexer"

subsection \<open>The scan\<close>

text \<open>
  \<^verbatim>\<open>while (lexer->lookahead != '\n' && lexer->lookahead != 0) { advance(lexer); }\<close>
\<close>

function consume_until_newline :: "TSLexer \<Rightarrow> TSLexer" where
  "consume_until_newline lexer =
     (if lookahead lexer \<noteq> of_char (CHR 0x0A) \<and> lookahead lexer \<noteq> 0
      then consume_until_newline (advance lexer)
      else lexer)"
  by pat_completeness auto
termination
  by (relation "measure (\<lambda>lexer. length (remaining lexer))")
    (auto simp add: lookahead_def advance_def split: list.splits)

declare consume_until_newline.simps [simp del]

text \<open>
  The body of \<^verbatim>\<open>if (valid_symbols[CELL_END]) { ... }\<close>: the first component says
  whether the function returned \<^verbatim>\<open>true\<close> there; when it did not, control falls
  through with the lexer as the attempt left it.
\<close>

definition scan_cell_end :: "TSLexer \<Rightarrow> bool \<times> TSLexer" where
  "scan_cell_end lexer =
     (if lookahead lexer = of_char CHR ''#'' then
        (case check_end_marker lexer of
           (True, lexer') \<Rightarrow>
             (True, (if lookahead lexer' = of_char (CHR 0x0A) then advance lexer' else lexer')
                      \<lparr>result_symbol := CELL_END\<rparr>)
         | (False, lexer') \<Rightarrow> (False, lexer'))
      else (False, lexer))"

text \<open>The body of \<^verbatim>\<open>if (valid_symbols[CONTENT_LINE]) { ... }\<close>, up to the final \<^verbatim>\<open>return false\<close>.\<close>

definition scan_content_line :: "TSLexer \<Rightarrow> bool \<times> TSLexer" where
  "scan_content_line lexer =
     (let (is_marker, lexer1) =
        (if lookahead lexer = of_char CHR ''#'' then check_end_marker (mark_end lexer)
         else (False, lexer))
      in if is_marker then (False, lexer1)
         else
           (let lexer2 = consume_until_newline lexer1
            in if lookahead lexer2 = of_char (CHR 0x0A)
               then (True, (advance lexer2)\<lparr>result_symbol := CONTENT_LINE\<rparr>)
               else if lookahead lexer2 = 0
               then (True, lexer2\<lparr>result_symbol := CONTENT_LINE\<rparr>)
               else (False, lexer2)))"

text \<open>
  \<^verbatim>\<open>bool tree_sitter_ipynb_external_scanner_scan(void *payload, TSLexer *lexer,
       const bool *valid_symbols)\<close>.
  The payload is never read. \<open>valid_symbols\<close> is the array indexed by \<open>TokenType\<close>. The
  result is the returned flag and the lexer as the call leaves it.
\<close>

definition tree_sitter_ipynb_external_scanner_scan ::
  "TSLexer \<Rightarrow> (TokenType \<Rightarrow> bool) \<Rightarrow> bool \<times> TSLexer" where
  "tree_sitter_ipynb_external_scanner_scan lexer valid_symbols =
     (let (found, lexer1) =
        (if valid_symbols CELL_END then scan_cell_end lexer else (False, lexer))
      in if found then (True, lexer1)
         else if valid_symbols CONTENT_LINE then scan_content_line lexer1
         else (False, lexer1))"

text \<open>A call on a fresh cursor at the start of the input \<open>s\<close>.\<close>

definition start :: "int32 list \<Rightarrow> TokenType \<Rightarrow> TSLexer" where
  "start s r = \<lparr>consumed = [], remaining = s, token_end = None, result_symbol = r\<rparr>"

text \<open>The request sets with exactly one kind.\<close>

definition only :: "TokenType \<Rightarrow> TokenType \<Rightarrow> bool" where
  "only k = (\<lambda>k'. k' = k)"


subsection \<open>Vocabulary for the statements\<close>

text \<open>The lexer after the cursor has passed \<open>n\<close> more characters.\<close>

definition passed :: "nat \<Rightarrow> TSLexer \<Rightarrow> TSLexer" where
  "passed n lexer =
     lexer\<lparr>consumed := consumed lexer @ take n (remaining lexer),
           remaining := drop n (remaining lexer)\<rparr>"

text \<open>How many leading characters of \<open>ys\<close> agree with \<open>xs\<close>, position by position.\<close>

fun matched :: "int32 list \<Rightarrow> int32 list \<Rightarrow> nat" where
  "matched (x # xs) (y # ys) = (if x = y then Suc (matched xs ys) else 0)"
| "matched _ _ = 0"

text \<open>
  The length of the first line of \<open>s\<close>: the characters before the first newline, that
  newline included; the line also ends, with nothing more included, where the lexer
  reports the sentinel \<open>0\<close>.
\<close>

fun line_span :: "int32 list \<Rightarrow> nat" where
  "line_span [] = 0"
| "line_span (c # cs) = (if c = 10 then 1 else if c = 0 then 0 else Suc (line_span cs))"

section \<open>Properties\<close>

subsection \<open>The lexer's operations\<close>

lemma lookahead_Nil: "remaining lexer = [] \<Longrightarrow> lookahead lexer = 0"
  by (simp add: lookahead_def)

lemma lookahead_Cons: "remaining lexer = c # cs \<Longrightarrow> lookahead lexer = c"
  by (simp add: lookahead_def)

lemma advance_Cons: "remaining lexer = c # cs \<Longrightarrow> advance lexer = passed 1 lexer"
  by (simp add: advance_def passed_def)

lemma passed_0: "passed 0 lexer = lexer"
  by (simp add: passed_def)

lemma passed_passed: "passed m (passed n lexer) = passed (n + m) lexer"
  by (simp add: passed_def take_add add.commute [of m n])

lemma passed_fields:
  "consumed (passed n lexer) = consumed lexer @ take n (remaining lexer)"
  "remaining (passed n lexer) = drop n (remaining lexer)"
  "token_end (passed n lexer) = token_end lexer"
  "result_symbol (passed n lexer) = result_symbol lexer"
  by (simp_all add: passed_def)

subsection \<open>The marker\<close>

lemma marker_codepoints:
  "codepoints marker =
     [35, 32, 60, 60, 47, 105, 112, 121, 110, 98, 95, 110, 118, 105, 109, 62, 62]"
  by (simp add: codepoints_def marker_def)

lemma marker_no_sentinel: "0 \<notin> set (codepoints marker)"
  by (simp add: marker_codepoints)

lemma marker_no_newline: "10 \<notin> set (codepoints marker)"
  by (simp add: marker_codepoints)

subsection \<open>Matching\<close>

lemma matched_prefix: "matched xs ys = length xs \<longleftrightarrow> prefix xs ys"
  by (induction xs ys rule: matched.induct) auto

lemma matched_le_right: "matched xs ys \<le> length ys"
  by (induction xs ys rule: matched.induct) auto

lemma matched_take: "take (matched xs ys) ys = take (matched xs ys) xs"
  by (induction xs ys rule: matched.induct) auto

lemma check_end_marker_from_eq:
  "0 \<notin> set (codepoints ms) \<Longrightarrow>
   check_end_marker_from ms lexer =
     (prefix (codepoints ms) (remaining lexer),
      passed (matched (codepoints ms) (remaining lexer)) lexer)"
proof (induction ms arbitrary: lexer)
  case Nil
  then show ?case by (simp add: codepoints_def passed_0)
next
  case (Cons m ms)
  then have m0: "(of_char m :: int32) \<noteq> 0" and ms0: "0 \<notin> set (codepoints ms)"
    by (auto simp: codepoints_def)
  show ?case
  proof (cases "remaining lexer")
    case Nil
    with m0 show ?thesis
      by (auto simp: codepoints_def lookahead_Nil passed_0)
  next
    case (Cons c cs)
    show ?thesis
    proof (cases "c = of_char m")
      case True
      with Cons Cons.IH[OF ms0, of "advance lexer"] show ?thesis
        by (simp add: codepoints_def lookahead_Cons advance_def passed_def)
    next
      case False
      with Cons show ?thesis
        by (auto simp: codepoints_def lookahead_Cons passed_0)
    qed
  qed
qed

lemma check_end_marker_eq:
  "check_end_marker lexer =
     (prefix (codepoints marker) (remaining lexer),
      passed (matched (codepoints marker) (remaining lexer)) lexer)"
  unfolding check_end_marker_def
  by (rule check_end_marker_from_eq [OF marker_no_sentinel])


subsection \<open>The loop over a line\<close>

lemma line_span_le: "line_span s \<le> length s"
  by (induction s) auto

lemma consume_until_newline_finish:
  "(let lexer2 = consume_until_newline lexer
    in if lookahead lexer2 = of_char (CHR 0x0A)
       then (True, (advance lexer2)\<lparr>result_symbol := CONTENT_LINE\<rparr>)
       else if lookahead lexer2 = 0
       then (True, lexer2\<lparr>result_symbol := CONTENT_LINE\<rparr>)
       else (False, lexer2)) =
   (True, (passed (line_span (remaining lexer)) lexer)\<lparr>result_symbol := CONTENT_LINE\<rparr>)"
proof (induction lexer rule: consume_until_newline.induct)
  case (1 lexer)
  show ?case
  proof (cases "remaining lexer")
    case Nil
    then show ?thesis
      by (subst consume_until_newline.simps) (simp add: lookahead_Nil passed_0)
  next
    case (Cons c cs)
    consider "c = 10" | "c = 0" | "c \<noteq> 10" "c \<noteq> 0" by blast
    then show ?thesis
    proof cases
      case 1
      with Cons show ?thesis
        by (subst consume_until_newline.simps) (simp add: lookahead_Cons advance_Cons)
    next
      case 2
      with Cons show ?thesis
        by (subst consume_until_newline.simps) (simp add: lookahead_Cons passed_0)
    next
      case 3
      with Cons have adv: "advance lexer = passed 1 lexer"
        and go: "lookahead lexer \<noteq> of_char (CHR 0x0A) \<and> lookahead lexer \<noteq> 0"
        by (simp_all add: advance_Cons lookahead_Cons)
      have "consume_until_newline lexer = consume_until_newline (passed 1 lexer)"
        using go adv by (subst consume_until_newline.simps) simp
      moreover have "passed (line_span (remaining (passed 1 lexer))) (passed 1 lexer) =
          passed (line_span (remaining lexer)) lexer"
        using Cons 3 by (simp add: passed_passed passed_fields)
      ultimately show ?thesis
        using "1.IH" [OF go] adv by simp
    qed
  qed
qed


lemma line_span_drop:
  "10 \<notin> set (take k s) \<Longrightarrow> 0 \<notin> set (take k s) \<Longrightarrow> k \<le> length s \<Longrightarrow>
   k + line_span (drop k s) = line_span s"
proof (induction s arbitrary: k)
  case Nil
  then show ?case by simp
next
  case (Cons c cs)
  then show ?case by (cases k) auto
qed

lemma line_span_matched:
  "matched (codepoints marker) s + line_span (drop (matched (codepoints marker) s) s) =
   line_span s"
proof (rule line_span_drop)
  let ?k = "matched (codepoints marker) s"
  have sub: "set (take ?k s) \<subseteq> set (codepoints marker)"
    unfolding matched_take [of "codepoints marker" s] by (rule set_take_subset)
  show "10 \<notin> set (take ?k s)" using sub marker_no_newline by blast
  show "0 \<notin> set (take ?k s)" using sub marker_no_sentinel by blast
  show "?k \<le> length s" by (rule matched_le_right)
qed

subsection \<open>The two branches and the scan, in closed form\<close>

lemma marker_prefix_lookahead:
  "prefix (codepoints marker) (remaining lexer) \<Longrightarrow> lookahead lexer = 35"
  by (cases "remaining lexer") (simp_all add: marker_codepoints lookahead_def)

lemma matched_no_hash:
  "lookahead lexer \<noteq> 35 \<Longrightarrow> matched (codepoints marker) (remaining lexer) = 0"
  by (cases "remaining lexer") (simp_all add: marker_codepoints lookahead_def)

lemma length_marker_codepoints: "length (codepoints marker) = 17"
  by (simp add: marker_codepoints)

lemma newline_after_marker:
  assumes "prefix (codepoints marker) (remaining lexer)"
  shows "lookahead (passed 17 lexer) = 10 \<longleftrightarrow>
         prefix (codepoints marker @ [10]) (remaining lexer)"
proof -
  from assms obtain rest where rest: "remaining lexer = codepoints marker @ rest"
    by (auto simp: prefix_def)
  then have "remaining (passed 17 lexer) = rest"
    by (simp add: passed_fields length_marker_codepoints)
  then have "lookahead (passed 17 lexer) = 10 \<longleftrightarrow> prefix [10] rest"
    by (cases rest) (simp_all add: lookahead_def)
  with rest show ?thesis by simp
qed

lemma scan_cell_end_eq:
  "scan_cell_end lexer =
     (if prefix (codepoints marker) (remaining lexer)
      then (True, (passed (if prefix (codepoints marker @ [10]) (remaining lexer)
                           then 18 else 17) lexer)\<lparr>result_symbol := CELL_END\<rparr>)
      else (False, passed (matched (codepoints marker) (remaining lexer)) lexer))"
proof (cases "prefix (codepoints marker) (remaining lexer)")
  case True
  then have m: "matched (codepoints marker) (remaining lexer) = 17"
    using matched_prefix [of "codepoints marker" "remaining lexer"]
    by (simp add: length_marker_codepoints)
  from True obtain rest where rest: "remaining lexer = codepoints marker @ rest"
    by (auto simp: prefix_def)
  have adv: "lookahead (passed 17 lexer) = 10 \<Longrightarrow> advance (passed 17 lexer) = passed 18 lexer"
  proof -
    assume "lookahead (passed 17 lexer) = 10"
    then obtain cs where "remaining (passed 17 lexer) = 10 # cs"
      by (cases "remaining (passed 17 lexer)") (simp_all add: lookahead_def)
    then show ?thesis by (simp add: advance_Cons passed_passed)
  qed
  show ?thesis
    using True m adv newline_after_marker [OF True] marker_prefix_lookahead [OF True]
    by (simp add: scan_cell_end_def check_end_marker_eq)
next
  case False
  then show ?thesis
    by (simp add: scan_cell_end_def check_end_marker_eq matched_no_hash passed_0)
qed

lemma scan_content_line_eq:
  "scan_content_line lexer =
     (if prefix (codepoints marker) (remaining lexer)
      then (False, passed 17 (mark_end lexer))
      else (True, (passed (line_span (remaining lexer))
                    (if lookahead lexer = 35 then mark_end lexer else lexer))
                  \<lparr>result_symbol := CONTENT_LINE\<rparr>))"
proof (cases "prefix (codepoints marker) (remaining lexer)")
  case True
  then have m: "matched (codepoints marker) (remaining lexer) = 17"
    using matched_prefix [of "codepoints marker" "remaining lexer"]
    by (simp add: length_marker_codepoints)
  have r: "remaining (mark_end lexer) = remaining lexer" by (simp add: mark_end_def)
  show ?thesis
    using True m marker_prefix_lookahead [OF True]
    by (simp add: scan_content_line_def check_end_marker_eq r)
next
  case False
  have r: "remaining (mark_end lexer) = remaining lexer" by (simp add: mark_end_def)
  show ?thesis
  proof (cases "lookahead lexer = 35")
    case True
    let ?k = "matched (codepoints marker) (remaining lexer)"
    have "passed (line_span (remaining (passed ?k (mark_end lexer)))) (passed ?k (mark_end lexer))
        = passed (line_span (remaining lexer)) (mark_end lexer)"
      by (simp add: passed_passed passed_fields r line_span_matched)
    with True False show ?thesis
      using consume_until_newline_finish [of "passed ?k (mark_end lexer)"]
      by (simp add: scan_content_line_def check_end_marker_eq r)
  next
    case no: False
    with False show ?thesis
      using consume_until_newline_finish [of lexer]
      by (simp add: scan_content_line_def)
  qed
qed


lemma scan_eq:
  "tree_sitter_ipynb_external_scanner_scan lexer valid_symbols =
     (if valid_symbols CELL_END \<and> prefix (codepoints marker) (remaining lexer)
      then (True, (passed (if prefix (codepoints marker @ [10]) (remaining lexer)
                           then 18 else 17) lexer)\<lparr>result_symbol := CELL_END\<rparr>)
      else if valid_symbols CONTENT_LINE
      then scan_content_line
             (if valid_symbols CELL_END
              then passed (matched (codepoints marker) (remaining lexer)) lexer else lexer)
      else (False, if valid_symbols CELL_END
                   then passed (matched (codepoints marker) (remaining lexer)) lexer
                   else lexer))"
  by (simp add: tree_sitter_ipynb_external_scanner_scan_def scan_cell_end_eq)

subsection \<open>How far a call moves the cursor\<close>

lemma line_span_whole:
  "10 \<notin> set s \<Longrightarrow> 0 \<notin> set s \<Longrightarrow> line_span s = length s"
  by (induction s) auto

lemma line_span_marker:
  assumes "prefix (codepoints marker) s"
  shows "17 + line_span (drop 17 s) = line_span s"
proof (rule line_span_drop)
  from assms have t: "take 17 s = codepoints marker"
    using length_marker_codepoints by (auto simp: prefix_def)
  show "10 \<notin> set (take 17 s)" using t marker_no_newline by simp
  show "0 \<notin> set (take 17 s)" using t marker_no_sentinel by simp
  show "17 \<le> length s" using assms length_marker_codepoints prefix_length_le by fastforce
qed

lemma line_span_marker_newline:
  assumes "prefix (codepoints marker @ [10]) s"
  shows "18 \<le> line_span s"
proof -
  from assms obtain rest where s: "s = codepoints marker @ 10 # rest"
    by (auto simp: prefix_def)
  then have "prefix (codepoints marker) s" by simp
  from line_span_marker [OF this] s show ?thesis
    by (simp add: length_marker_codepoints)
qed

lemma scan_content_line_progress:
  "\<exists>n\<le>line_span (remaining lexer).
     consumed (snd (scan_content_line lexer)) = consumed lexer @ take n (remaining lexer) \<and>
     remaining (snd (scan_content_line lexer)) = drop n (remaining lexer)"
proof (cases "prefix (codepoints marker) (remaining lexer)")
  case True
  from line_span_marker [OF True] have "17 \<le> line_span (remaining lexer)" by simp
  with True show ?thesis
    by (intro exI [of _ 17]) (simp add: scan_content_line_eq passed_def mark_end_def)
next
  case False
  then show ?thesis
    by (intro exI [of _ "line_span (remaining lexer)"])
      (simp add: scan_content_line_eq passed_def mark_end_def)
qed


section \<open>The claims\<close>


text \<open>
  C1. With only \<open>CELL_END\<close> requested, the scan succeeds if and only if the input at the
  cursor begins with the marker \<^verbatim>\<open># <</ipynb_nvim>>\<close>, character for character, and a
  successful scan reports the kind \<open>CELL_END\<close>. An input that departs from the marker at
  any position makes the scan fail.
\<close>

theorem cell_end_marker_exact:
  "(fst (tree_sitter_ipynb_external_scanner_scan lexer (only CELL_END)) \<longleftrightarrow>
      prefix (codepoints ''# <</ipynb_nvim>>'') (remaining lexer)) \<and>
   (fst (tree_sitter_ipynb_external_scanner_scan lexer (only CELL_END)) \<longrightarrow>
      result_symbol (snd (tree_sitter_ipynb_external_scanner_scan lexer (only CELL_END)))
        = CELL_END)"
  by (simp add: scan_eq only_def marker_def [symmetric])

theorem cell_end_marker_exact_witness:
  "fst (tree_sitter_ipynb_external_scanner_scan
          (start (codepoints ''# <</ipynb_nvim>>'') CONTENT_LINE) (only CELL_END)) \<and>
   result_symbol (snd (tree_sitter_ipynb_external_scanner_scan
          (start (codepoints ''# <</ipynb_nvim>>'') CONTENT_LINE) (only CELL_END))) = CELL_END \<and>
   \<not> fst (tree_sitter_ipynb_external_scanner_scan
          (start (codepoints ''# <</ipynb_nvi>>'') CONTENT_LINE) (only CELL_END)) \<and>
   \<not> fst (tree_sitter_ipynb_external_scanner_scan
          (start (codepoints ''## <</ipynb_nvim>>'') CONTENT_LINE) (only CELL_END))"
  using cell_end_marker_exact [of "start (codepoints ''# <</ipynb_nvim>>'') CONTENT_LINE"]
    cell_end_marker_exact [of "start (codepoints ''# <</ipynb_nvi>>'') CONTENT_LINE"]
    cell_end_marker_exact [of "start (codepoints ''## <</ipynb_nvim>>'') CONTENT_LINE"]
  by (simp add: start_def codepoints_def)

text \<open>
  C2. With only \<open>CONTENT_LINE\<close> requested: on \<^verbatim>\<open># not a marker\<close> and a newline the scan
  succeeds with a \<open>CONTENT_LINE\<close> token and the cursor has passed the whole line, its
  newline included; on the marker and a newline the scan fails. In general the scan of a
  line fails exactly when the line begins with the whole marker, character for character,
  and otherwise it succeeds with \<open>CONTENT_LINE\<close>. (For a line that begins with \<open>#\<close> the
  scanner has called \<^verbatim>\<open>mark_end\<close> at the start of the line, which the lexer records.)
\<close>

theorem content_line_or_marker:
  "tree_sitter_ipynb_external_scanner_scan
     (start (codepoints ''# not a marker\<newline>'') r) (only CONTENT_LINE) =
   (True, \<lparr>consumed = codepoints ''# not a marker\<newline>'', remaining = [],
           token_end = Some 0, result_symbol = CONTENT_LINE\<rparr>) \<and>
   tree_sitter_ipynb_external_scanner_scan
     (start (codepoints ''# <</ipynb_nvim>>\<newline>'') r) (only CONTENT_LINE) =
   (False, \<lparr>consumed = codepoints ''# <</ipynb_nvim>>'', remaining = codepoints ''\<newline>'',
            token_end = Some 0, result_symbol = r\<rparr>) \<and>
   (fst (tree_sitter_ipynb_external_scanner_scan lexer (only CONTENT_LINE)) \<longleftrightarrow>
      \<not> prefix (codepoints ''# <</ipynb_nvim>>'') (remaining lexer)) \<and>
   (fst (tree_sitter_ipynb_external_scanner_scan lexer (only CONTENT_LINE)) \<longrightarrow>
      result_symbol (snd (tree_sitter_ipynb_external_scanner_scan lexer (only CONTENT_LINE)))
        = CONTENT_LINE)"
proof -
  have a: "tree_sitter_ipynb_external_scanner_scan
     (start (codepoints ''# not a marker\<newline>'') r) (only CONTENT_LINE) =
   (True, \<lparr>consumed = codepoints ''# not a marker\<newline>'', remaining = [],
           token_end = Some 0, result_symbol = CONTENT_LINE\<rparr>)"
    by (simp add: scan_eq scan_content_line_eq only_def marker_codepoints)
      (simp add: start_def codepoints_def passed_def lookahead_def mark_end_def)
  have b: "tree_sitter_ipynb_external_scanner_scan
     (start (codepoints ''# <</ipynb_nvim>>\<newline>'') r) (only CONTENT_LINE) =
   (False, \<lparr>consumed = codepoints ''# <</ipynb_nvim>>'', remaining = codepoints ''\<newline>'',
            token_end = Some 0, result_symbol = r\<rparr>)"
    by (simp add: scan_eq scan_content_line_eq only_def marker_codepoints)
      (simp add: start_def codepoints_def passed_def lookahead_def mark_end_def)
  have c: "fst (tree_sitter_ipynb_external_scanner_scan lexer (only CONTENT_LINE)) \<longleftrightarrow>
      \<not> prefix (codepoints ''# <</ipynb_nvim>>'') (remaining lexer)"
    by (simp add: scan_eq scan_content_line_eq only_def marker_def [symmetric])
  have d: "fst (tree_sitter_ipynb_external_scanner_scan lexer (only CONTENT_LINE)) \<longrightarrow>
      result_symbol (snd (tree_sitter_ipynb_external_scanner_scan lexer (only CONTENT_LINE)))
        = CONTENT_LINE"
    by (simp add: scan_eq scan_content_line_eq only_def)
  from a b c d show ?thesis by blast
qed

theorem content_line_or_marker_witness:
  "fst (tree_sitter_ipynb_external_scanner_scan
          (start (codepoints ''# <</ipynb_nvi>>\<newline>'') CELL_END) (only CONTENT_LINE)) \<and>
   result_symbol (snd (tree_sitter_ipynb_external_scanner_scan
          (start (codepoints ''# <</ipynb_nvi>>\<newline>'') CELL_END) (only CONTENT_LINE)))
     = CONTENT_LINE \<and>
   \<not> fst (tree_sitter_ipynb_external_scanner_scan
          (start (codepoints ''# <</ipynb_nvim>> x'') CELL_END) (only CONTENT_LINE))"
  using content_line_or_marker [of CELL_END "start (codepoints ''# <</ipynb_nvi>>\<newline>'') CELL_END"]
    content_line_or_marker [of CELL_END "start (codepoints ''# <</ipynb_nvim>> x'') CELL_END"]
  by (simp add: start_def codepoints_def)

text \<open>
  C3. The claim gives the marker 18 characters. The literal the scanner compares against
  has 17: \<open>#\<close>, one space, two \<open><\<close>, \<open>/\<close>, the ten characters of \<open>ipynb_nvim\<close>, two \<open>>\<close>
  (18 is the size of the C array, its terminating NUL counted). The comparison succeeds
  exactly when the next 17 characters of the input are the marker.
\<close>

theorem marker_length_17:
  "length marker = 17 \<and>
   (fst (check_end_marker lexer) \<longleftrightarrow> take 17 (remaining lexer) = codepoints marker)"
proof -
  have "prefix (codepoints marker) (remaining lexer) \<longleftrightarrow>
        take 17 (remaining lexer) = codepoints marker"
    using length_marker_codepoints
    by (metis prefix_def append_eq_conv_conj append_take_drop_id)
  then show ?thesis by (simp add: check_end_marker_eq) (simp add: marker_def)
qed

text \<open>The count of 18 fails on the literal itself.\<close>

theorem marker_length_not_18: "length marker \<noteq> 18"
  by (simp add: marker_def)

text \<open>
  C4. With \<open>CELL_END\<close> requested, the marker followed by a newline and the marker followed
  at once by the end of the input both yield a \<open>CELL_END\<close> token: in the first case the
  cursor passes the newline too, in the second no newline is needed.
\<close>

theorem cell_end_trailing_newline_optional:
  "valid_symbols CELL_END \<Longrightarrow>
   tree_sitter_ipynb_external_scanner_scan
     (start (codepoints ''# <</ipynb_nvim>>\<newline>'') r) valid_symbols =
   (True, \<lparr>consumed = codepoints ''# <</ipynb_nvim>>\<newline>'', remaining = [],
           token_end = None, result_symbol = CELL_END\<rparr>) \<and>
   tree_sitter_ipynb_external_scanner_scan
     (start (codepoints ''# <</ipynb_nvim>>'') r) valid_symbols =
   (True, \<lparr>consumed = codepoints ''# <</ipynb_nvim>>'', remaining = [],
           token_end = None, result_symbol = CELL_END\<rparr>)"
  by (simp add: scan_eq marker_codepoints) (simp add: start_def codepoints_def passed_def)

theorem cell_end_trailing_newline_optional_witness:
  "tree_sitter_ipynb_external_scanner_scan
     (start (codepoints ''# <</ipynb_nvim>>\<newline>'') CONTENT_LINE) (only CELL_END) =
   (True, \<lparr>consumed = codepoints ''# <</ipynb_nvim>>\<newline>'', remaining = [],
           token_end = None, result_symbol = CELL_END\<rparr>) \<and>
   tree_sitter_ipynb_external_scanner_scan
     (start (codepoints ''# <</ipynb_nvim>>'') CONTENT_LINE) (\<lambda>k. True) =
   (True, \<lparr>consumed = codepoints ''# <</ipynb_nvim>>'', remaining = [],
           token_end = None, result_symbol = CELL_END\<rparr>)"
  using cell_end_trailing_newline_optional [of "only CELL_END" CONTENT_LINE]
    cell_end_trailing_newline_optional [of "\<lambda>k. True" CONTENT_LINE]
  by (simp add: only_def)

text \<open>
  C5. If \<open>CONTENT_LINE\<close> is requested and the content loop reaches the end of the input
  before any newline, the scan emits a \<open>CONTENT_LINE\<close> token over everything up to the end
  of the input, also when that is nothing: a scan at the very end of the input returns an
  empty \<open>CONTENT_LINE\<close> token and does not fail. The loop is reached when the scan has not
  recognised the marker before: the input does not begin with it, and, when \<open>CELL_END\<close> is
  requested too, neither does what follows the characters that the \<open>CELL_END\<close> attempt has
  passed. The lexer shows the end of the input as the character \<open>0\<close>, so the input is
  taken to hold no such character.
\<close>

theorem content_line_end_of_input:
  "(valid_symbols CONTENT_LINE \<and>
    10 \<notin> set (remaining lexer) \<and> 0 \<notin> set (remaining lexer) \<and>
    \<not> prefix (codepoints marker) (remaining lexer) \<and>
    (valid_symbols CELL_END \<longrightarrow>
       \<not> prefix (codepoints marker)
            (drop (matched (codepoints marker) (remaining lexer)) (remaining lexer)))
    \<longrightarrow>
    fst (tree_sitter_ipynb_external_scanner_scan lexer valid_symbols) \<and>
    result_symbol (snd (tree_sitter_ipynb_external_scanner_scan lexer valid_symbols))
      = CONTENT_LINE \<and>
    consumed (snd (tree_sitter_ipynb_external_scanner_scan lexer valid_symbols))
      = consumed lexer @ remaining lexer \<and>
    remaining (snd (tree_sitter_ipynb_external_scanner_scan lexer valid_symbols)) = []) \<and>
   (valid_symbols CONTENT_LINE \<and> remaining lexer = [] \<longrightarrow>
    tree_sitter_ipynb_external_scanner_scan lexer valid_symbols =
      (True, lexer\<lparr>result_symbol := CONTENT_LINE\<rparr>))"
proof (intro conjI impI)
  assume h: "valid_symbols CONTENT_LINE \<and>
    10 \<notin> set (remaining lexer) \<and> 0 \<notin> set (remaining lexer) \<and>
    \<not> prefix (codepoints marker) (remaining lexer) \<and>
    (valid_symbols CELL_END \<longrightarrow>
       \<not> prefix (codepoints marker)
            (drop (matched (codepoints marker) (remaining lexer)) (remaining lexer)))"
  let ?rest = "remaining lexer"
  let ?k = "if valid_symbols CELL_END then matched (codepoints marker) ?rest else 0"
  let ?l1 = "passed ?k lexer"
  have l1: "(if valid_symbols CELL_END
             then passed (matched (codepoints marker) ?rest) lexer else lexer) = ?l1"
    by (simp add: passed_0)
  have scan: "tree_sitter_ipynb_external_scanner_scan lexer valid_symbols =
      scan_content_line ?l1"
    using h by (simp add: scan_eq passed_0)
  have r1: "remaining ?l1 = drop ?k ?rest" by (simp add: passed_fields)
  have np: "\<not> prefix (codepoints marker) (remaining ?l1)"
    using h by (simp add: passed_fields)
  have "set (drop ?k ?rest) \<subseteq> set ?rest" by (rule set_drop_subset)
  with h have "10 \<notin> set (drop ?k ?rest)" "0 \<notin> set (drop ?k ?rest)" by blast+
  then have span: "line_span (remaining ?l1) = length (drop ?k ?rest)"
    unfolding r1 by (rule line_span_whole)
  have res: "scan_content_line ?l1 =
      (True, (passed (length (drop ?k ?rest))
                (if lookahead ?l1 = 35 then mark_end ?l1 else ?l1))
              \<lparr>result_symbol := CONTENT_LINE\<rparr>)"
    using np span by (simp add: scan_content_line_eq)
  show "fst (tree_sitter_ipynb_external_scanner_scan lexer valid_symbols)"
    unfolding scan res by simp
  show "result_symbol (snd (tree_sitter_ipynb_external_scanner_scan lexer valid_symbols))
      = CONTENT_LINE"
    unfolding scan res by simp
  show "consumed (snd (tree_sitter_ipynb_external_scanner_scan lexer valid_symbols))
      = consumed lexer @ remaining lexer"
    unfolding scan res by (simp add: passed_def mark_end_def)
  show "remaining (snd (tree_sitter_ipynb_external_scanner_scan lexer valid_symbols)) = []"
    unfolding scan res by (simp add: passed_def mark_end_def)
next
  assume "valid_symbols CONTENT_LINE \<and> remaining lexer = []"
  then show "tree_sitter_ipynb_external_scanner_scan lexer valid_symbols =
      (True, lexer\<lparr>result_symbol := CONTENT_LINE\<rparr>)"
    by (simp add: scan_eq scan_content_line_eq marker_codepoints passed_def lookahead_def)
qed

theorem content_line_end_of_input_witness:
  "tree_sitter_ipynb_external_scanner_scan (start [] CELL_END) (only CONTENT_LINE) =
     (True, start [] CONTENT_LINE) \<and>
   tree_sitter_ipynb_external_scanner_scan (start [] CELL_END) (\<lambda>k. True) =
     (True, start [] CONTENT_LINE) \<and>
   fst (tree_sitter_ipynb_external_scanner_scan (start (codepoints ''#abc'') CELL_END)
          (\<lambda>k. True)) \<and>
   result_symbol (snd (tree_sitter_ipynb_external_scanner_scan
          (start (codepoints ''#abc'') CELL_END) (\<lambda>k. True))) = CONTENT_LINE \<and>
   consumed (snd (tree_sitter_ipynb_external_scanner_scan
          (start (codepoints ''#abc'') CELL_END) (\<lambda>k. True))) = codepoints ''#abc'' \<and>
   remaining (snd (tree_sitter_ipynb_external_scanner_scan
          (start (codepoints ''#abc'') CELL_END) (\<lambda>k. True))) = []"
  using content_line_end_of_input [of "only CONTENT_LINE" "start [] CELL_END"]
    content_line_end_of_input [of "\<lambda>k. True" "start [] CELL_END"]
    content_line_end_of_input [of "\<lambda>k. True" "start (codepoints ''#abc'') CELL_END"]
  by (simp add: start_def codepoints_def only_def marker_def)

text \<open>
  C6. With only \<open>CONTENT_LINE\<close> requested, the input \<open>abc\<close> followed by the end of the
  input yields a \<open>CONTENT_LINE\<close> token over exactly the three characters \<open>abc\<close>.
\<close>

theorem content_line_unterminated:
  "tree_sitter_ipynb_external_scanner_scan (start (codepoints ''abc'') r) (only CONTENT_LINE) =
   (True, \<lparr>consumed = codepoints ''abc'', remaining = [],
           token_end = None, result_symbol = CONTENT_LINE\<rparr>)"
  by (simp add: scan_eq scan_content_line_eq only_def marker_codepoints)
    (simp add: start_def codepoints_def passed_def lookahead_def)

text \<open>
  C7. With only \<open>CONTENT_LINE\<close> requested, the input that is a lone newline yields a
  \<open>CONTENT_LINE\<close> token over exactly that one newline.
\<close>

theorem content_line_empty_line:
  "tree_sitter_ipynb_external_scanner_scan (start (codepoints ''\<newline>'') r) (only CONTENT_LINE) =
   (True, \<lparr>consumed = codepoints ''\<newline>'', remaining = [],
           token_end = None, result_symbol = CONTENT_LINE\<rparr>)"
  by (simp add: scan_eq scan_content_line_eq only_def marker_codepoints)
    (simp add: start_def codepoints_def passed_def lookahead_def)

text \<open>
  C8. For every input and every request set that contains neither \<open>CONTENT_LINE\<close> nor
  \<open>CELL_END\<close> (the empty set included), the scan fails and leaves the lexer as it found
  it: the cursor has not moved.
\<close>

theorem scan_nothing_requested:
  "\<not> valid_symbols CELL_END \<Longrightarrow> \<not> valid_symbols CONTENT_LINE \<Longrightarrow>
   tree_sitter_ipynb_external_scanner_scan lexer valid_symbols = (False, lexer)"
  by (simp add: tree_sitter_ipynb_external_scanner_scan_def)

theorem scan_nothing_requested_witness:
  "tree_sitter_ipynb_external_scanner_scan
     (start (codepoints ''# <</ipynb_nvim>>'') CONTENT_LINE) (\<lambda>k. False) =
   (False, start (codepoints ''# <</ipynb_nvim>>'') CONTENT_LINE)"
  using scan_nothing_requested
    [of "\<lambda>k. False" "start (codepoints ''# <</ipynb_nvim>>'') CONTENT_LINE"]
  by simp

text \<open>
  C9. Every call of the scan returns, for every input and every request set: the loops
  are total functions, the marker loop by recursion over the fixed marker and the content
  loop because each turn moves the cursor over one character that is not the end of the
  input. Each turn of either loop moves the cursor by exactly one character, so the
  number of characters passed bounds the number of turns: a call passes at most the first
  line of the input (to its newline, or to the end of the input), hence at most as many
  characters as the input holds.
\<close>

theorem scan_bounded:
  "\<exists>n. n \<le> line_span (remaining lexer) \<and> line_span (remaining lexer) \<le> length (remaining lexer) \<and>
     consumed (snd (tree_sitter_ipynb_external_scanner_scan lexer valid_symbols))
       = consumed lexer @ take n (remaining lexer) \<and>
     remaining (snd (tree_sitter_ipynb_external_scanner_scan lexer valid_symbols))
       = drop n (remaining lexer)"
proof -
  let ?rest = "remaining lexer"
  let ?scan = "tree_sitter_ipynb_external_scanner_scan lexer valid_symbols"
  let ?k = "if valid_symbols CELL_END then matched (codepoints marker) ?rest else 0"
  let ?l1 = "passed ?k lexer"
  have l1: "(if valid_symbols CELL_END
             then passed (matched (codepoints marker) ?rest) lexer else lexer) = ?l1"
    by (simp add: passed_0)
  have k: "?k + line_span (drop ?k ?rest) = line_span ?rest"
    by (simp add: line_span_matched)
  have goal: "\<exists>n\<le>line_span ?rest. consumed (snd ?scan) = consumed lexer @ take n ?rest \<and>
      remaining (snd ?scan) = drop n ?rest"
  proof (cases "valid_symbols CELL_END \<and> prefix (codepoints marker) ?rest")
    case True
    let ?n = "if prefix (codepoints marker @ [10]) ?rest then 18 else 17 :: nat"
    have "?n \<le> line_span ?rest"
      using True line_span_marker [of ?rest] line_span_marker_newline [of ?rest] by auto
    moreover have "snd ?scan = (passed ?n lexer)\<lparr>result_symbol := CELL_END\<rparr>"
      using True by (simp add: scan_eq)
    ultimately show ?thesis
      by (intro exI [of _ ?n]) (simp add: passed_def)
  next
    case False
    show ?thesis
    proof (cases "valid_symbols CONTENT_LINE")
      case True
      with False have scan: "?scan = scan_content_line ?l1"
        unfolding scan_eq l1 by (cases "valid_symbols CELL_END") simp_all
      from scan_content_line_progress [of ?l1]
      obtain m where m: "m \<le> line_span (drop ?k ?rest)"
        "consumed (snd (scan_content_line ?l1)) = consumed ?l1 @ take m (remaining ?l1)"
        "remaining (snd (scan_content_line ?l1)) = drop m (remaining ?l1)"
        by (auto simp: passed_fields)
      have "?k + m \<le> line_span ?rest" using m(1) k by linarith
      moreover have "consumed (snd ?scan) = consumed lexer @ take (?k + m) ?rest"
        unfolding scan m(2) by (simp add: passed_fields take_add)
      moreover have "remaining (snd ?scan) = drop (?k + m) ?rest"
        unfolding scan m(3) by (simp add: passed_fields add.commute)
      ultimately show ?thesis by blast
    next
      case no: False
      with False have "snd ?scan = ?l1"
        unfolding scan_eq l1 by (cases "valid_symbols CELL_END") simp_all
      moreover have "?k \<le> line_span ?rest" using k by linarith
      ultimately show ?thesis
        by (intro exI [of _ ?k]) (simp add: passed_fields)
    qed
  qed
  then show ?thesis using line_span_le [of ?rest] by blast
qed

text \<open>
  C10. For every input whose first character is not \<open>#\<close> (the empty input included, where
  the lexer shows the sentinel), a scan that requests only \<open>CELL_END\<close> fails and leaves
  the lexer as it found it: no character is consumed.
\<close>

theorem cell_end_no_hash:
  "lookahead lexer \<noteq> of_char CHR ''#'' \<Longrightarrow>
   tree_sitter_ipynb_external_scanner_scan lexer (only CELL_END) = (False, lexer)"
  by (simp add: tree_sitter_ipynb_external_scanner_scan_def scan_cell_end_def only_def)

theorem cell_end_no_hash_witness:
  "lookahead (start (codepoints ''abc'') CONTENT_LINE) \<noteq> of_char CHR ''#'' \<and>
   tree_sitter_ipynb_external_scanner_scan (start (codepoints ''abc'') CONTENT_LINE)
     (only CELL_END) = (False, start (codepoints ''abc'') CONTENT_LINE)"
proof -
  have h: "lookahead (start (codepoints ''abc'') CONTENT_LINE) \<noteq> of_char CHR ''#''"
    by (simp add: lookahead_def start_def codepoints_def)
  show ?thesis using h cell_end_no_hash [OF h] by simp
qed

end
